theory Spec2Isabelle
  imports Main
begin

section \<open>The shared arrays of the bakery (main.py, lines 36--51)\<close>

text \<open>
  The module keeps two global Python lists, \<open>choosing\<close> and \<open>number\<close>, both empty at
  start. Tickets are Python integers, so they are unbounded: \<open>int\<close>. The lock
  \<open>bakery_mutex\<close> only serialises growth and reset, so a call of
  \<open>ensure_bakery_size\<close> is one indivisible transition of the shared state.
\<close>

datatype error = IndexError

record bakery =
  choosing :: "bool list"
  number :: "int list"

definition init_bakery :: bakery where
  "init_bakery = \<lparr>choosing = [], number = []\<rparr>"

text \<open>
  Python subscription \<open>xs[i]\<close>: an index from \<open>-len(xs)\<close> up to \<open>-1\<close> counts from the
  end, an index outside \<open>-len(xs) .. len(xs) - 1\<close> raises \<open>IndexError\<close>.
\<close>

definition py_index :: "int \<Rightarrow> 'a list \<Rightarrow> nat option" where
  "py_index i xs =
     (let n = int (length xs); k = (if i < 0 then n + i else i)
      in if 0 \<le> k \<and> k < n then Some (nat k) else None)"

definition py_get :: "'a list \<Rightarrow> int \<Rightarrow> error + 'a" where
  "py_get xs i = (case py_index i xs of None \<Rightarrow> Inl IndexError | Some k \<Rightarrow> Inr (xs ! k))"

definition py_set :: "'a list \<Rightarrow> int \<Rightarrow> 'a \<Rightarrow> error + 'a list" where
  "py_set xs i v = (case py_index i xs of None \<Rightarrow> Inl IndexError | Some k \<Rightarrow> Inr (xs[k := v]))"

text \<open>
  \<open>ensure_bakery_size(idx)\<close>: the loop \<open>while idx >= len(choosing)\<close> appends \<open>False\<close>
  to \<open>choosing\<close> and \<open>0\<close> to \<open>number\<close>. Only the length of \<open>choosing\<close> is tested.
\<close>

function ensure_bakery_size :: "int \<Rightarrow> bakery \<Rightarrow> bakery" where
  "ensure_bakery_size idx s =
     (if idx \<ge> int (length (choosing s))
      then ensure_bakery_size idx
             (s\<lparr>choosing := choosing s @ [False], number := number s @ [0]\<rparr>)
      else s)"
  by pat_completeness auto
termination
  by (relation "measure (\<lambda>(idx, s). nat (idx + 1 - int (length (choosing s))))") auto

declare ensure_bakery_size.simps [simp del]

text \<open>\<open>bakery_unlock(i)\<close>: the single assignment \<open>number[i] = 0\<close>.\<close>

definition bakery_unlock :: "int \<Rightarrow> bakery \<Rightarrow> error + bakery" where
  "bakery_unlock i s =
     (case py_set (number s) i 0 of
        Inl e \<Rightarrow> Inl e
      | Inr ns \<Rightarrow> Inr (s\<lparr>number := ns\<rparr>))"

section \<open>The lock protocol (main.py, lines 54--85)\<close>

text \<open>
  \<open>bakery_lock(i)\<close> runs beside other threads that write the same arrays, so it is
  modelled statement by statement: a thread executing it carries a program point, named
  after its source line, and its local variables. Every \<open>time.sleep(0.001)\<close> it executes is
  counted in \<open>sleeps\<close>.
\<close>

datatype label = L61 | L62 | L64 | L65 | L66 | L68 | L70 | L74 | Returned

record lthread =
  pc :: label
  arg_i :: int
  max_num :: int
  range_n :: nat
  var_j :: nat
  sleeps :: nat

definition start :: "int \<Rightarrow> lthread" where
  "start i = \<lparr>pc = L61, arg_i = i, max_num = 0, range_n = 0, var_j = 0, sleeps = 0\<rparr>"

text \<open>Line 64: \<open>max(number) if number else 0\<close>.\<close>

definition read_max :: "int list \<Rightarrow> int" where
  "read_max ns = (case ns of [] \<Rightarrow> 0 | x # xs \<Rightarrow> foldl max x xs)"

text \<open>
  Line 74, the condition of the inner \<open>while\<close>:
  \<open>number[j] != 0 and (number[j] < number[i] or (number[j] == number[i] and j < i))\<close>.
  Python's \<open>and\<close> does not read \<open>number[i]\<close> when \<open>number[j]\<close> is \<open>0\<close>.
\<close>

definition turn_cond :: "bakery \<Rightarrow> nat \<Rightarrow> int \<Rightarrow> error + bool" where
  "turn_cond s j i =
     (case py_get (number s) (int j) of
        Inl e \<Rightarrow> Inl e
      | Inr nj \<Rightarrow>
          if nj = 0 then Inr False
          else (case py_get (number s) i of
                  Inl e \<Rightarrow> Inl e
                | Inr ni \<Rightarrow> Inr (nj < ni \<or> (nj = ni \<and> int j < i))))"

text \<open>
  The \<open>for j in range(len(number))\<close> of line 68 fixes its bound once; \<open>for_next\<close> is
  the loop header taking the next \<open>j\<close>, or leaving the loop, after which the function
  returns.
\<close>

definition for_next :: "lthread \<Rightarrow> nat \<Rightarrow> lthread" where
  "for_next t j' =
     (if j' < range_n t then t\<lparr>var_j := j', pc := L70\<rparr> else t\<lparr>pc := Returned\<rparr>)"

text \<open>
  One statement of \<open>bakery_lock\<close>. In the source the \<open>while\<close> of line 74 is indented
  under the \<open>while\<close> of line 70, after the sleep of line 71: it is entered only when
  \<open>choosing[j]\<close> was read as true, and when it ends control goes back to the test of
  line 70.
\<close>

definition lock_step :: "lthread \<Rightarrow> bakery \<Rightarrow> error + (lthread \<times> bakery)" where
  "lock_step t s =
     (case pc t of
        L61 \<Rightarrow> Inr (t\<lparr>pc := L62\<rparr>, ensure_bakery_size (arg_i t) s)
      | L62 \<Rightarrow>
          (case py_set (choosing s) (arg_i t) True of
             Inl e \<Rightarrow> Inl e
           | Inr cs \<Rightarrow> Inr (t\<lparr>pc := L64\<rparr>, s\<lparr>choosing := cs\<rparr>))
      | L64 \<Rightarrow> Inr (t\<lparr>pc := L65, max_num := read_max (number s)\<rparr>, s)
      | L65 \<Rightarrow>
          (case py_set (number s) (arg_i t) (max_num t + 1) of
             Inl e \<Rightarrow> Inl e
           | Inr ns \<Rightarrow> Inr (t\<lparr>pc := L66\<rparr>, s\<lparr>number := ns\<rparr>))
      | L66 \<Rightarrow>
          (case py_set (choosing s) (arg_i t) False of
             Inl e \<Rightarrow> Inl e
           | Inr cs \<Rightarrow> Inr (t\<lparr>pc := L68\<rparr>, s\<lparr>choosing := cs\<rparr>))
      | L68 \<Rightarrow> Inr (for_next (t\<lparr>range_n := length (number s)\<rparr>) 0, s)
      | L70 \<Rightarrow>
          (case py_get (choosing s) (int (var_j t)) of
             Inl e \<Rightarrow> Inl e
           | Inr c \<Rightarrow>
               if c then Inr (t\<lparr>pc := L74, sleeps := sleeps t + 1\<rparr>, s)
               else Inr (for_next t (var_j t + 1), s))
      | L74 \<Rightarrow>
          (case turn_cond s (var_j t) (arg_i t) of
             Inl e \<Rightarrow> Inl e
           | Inr c \<Rightarrow>
               if c then Inr (t\<lparr>sleeps := sleeps t + 1\<rparr>, s)
               else Inr (t\<lparr>pc := L70\<rparr>, s))
      | Returned \<Rightarrow> Inr (t, s))"

text \<open>
  A thread running \<open>bakery_lock\<close> while no other thread writes the arrays: \<open>run_alone k\<close>
  executes \<open>k\<close> statements, stopping at an exception. A thread that has returned stays
  where it is.
\<close>

fun run_alone :: "nat \<Rightarrow> lthread \<times> bakery \<Rightarrow> error + (lthread \<times> bakery)" where
  "run_alone 0 cfg = Inr cfg"
| "run_alone (Suc k) (t, s) =
     (case lock_step t s of Inl e \<Rightarrow> Inl e | Inr cfg' \<Rightarrow> run_alone k cfg')"

text \<open>
  The callers (lines 124--129, 227--232, 247--252, 275--281) all run
  \<open>bakery_lock(id)\<close>, their critical section, then \<open>bakery_unlock(id)\<close>. A client is
  \<open>Holding\<close> from the moment \<open>bakery_lock\<close> has returned until it calls
  \<open>bakery_unlock\<close>.
\<close>

datatype client = Locking lthread | Holding int | Done

definition client_step :: "client \<Rightarrow> bakery \<Rightarrow> error + (client \<times> bakery)" where
  "client_step c s =
     (case c of
        Locking t \<Rightarrow>
          (case lock_step t s of
             Inl e \<Rightarrow> Inl e
           | Inr (t', s') \<Rightarrow>
               Inr (if pc t' = Returned then Holding (arg_i t') else Locking t', s'))
      | Holding i \<Rightarrow>
          (case bakery_unlock i s of Inl e \<Rightarrow> Inl e | Inr s' \<Rightarrow> Inr (Done, s'))
      | Done \<Rightarrow> Inr (Done, s))"

text \<open>
  Threads interleave statement by statement: a schedule names, for each step, the client
  that executes its next statement.
\<close>

fun run_sched :: "nat list \<Rightarrow> client list \<times> bakery \<Rightarrow> error + (client list \<times> bakery)" where
  "run_sched [] cfg = Inr cfg"
| "run_sched (k # ks) (cs, s) =
     (if k < length cs
      then (case client_step (cs ! k) s of
              Inl e \<Rightarrow> Inl e
            | Inr (c', s') \<Rightarrow> run_sched ks (cs[k := c'], s'))
      else run_sched ks (cs, s))"

section \<open>The system object (main.py, lines 136--185)\<close>

record ('p, 'th) system =
  ready_queue :: "'p list"
  terminated :: "'p list"
  running_threads :: "'th list"
  last_pid :: int
  bakery_id_counter :: int

text \<open>\<open>System.__init__\<close>.\<close>

definition init_system :: "('p, 'th) system" where
  "init_system =
     \<lparr>ready_queue = [], terminated = [], running_threads = [], last_pid = 0,
      bakery_id_counter = 0\<rparr>"

text \<open>Lines 169--172 of \<open>System.reset\<close>: both globals are rebound to fresh empty lists.\<close>

definition reset_arrays :: "bakery \<Rightarrow> bakery" where
  "reset_arrays s = s\<lparr>choosing := [], number := []\<rparr>"

definition reset :: "('p, 'th) system \<Rightarrow> bakery \<Rightarrow> ('p, 'th) system \<times> bakery" where
  "reset sys s =
     (sys\<lparr>ready_queue := [], terminated := [], running_threads := [], last_pid := 0,
          bakery_id_counter := 0\<rparr>,
      reset_arrays s)"

text \<open>\<open>System.allocate_bakery_id\<close>: returns the id, the system and the arrays.\<close>

definition allocate_bakery_id ::
  "('p, 'th) system \<Rightarrow> bakery \<Rightarrow> int \<times> ('p, 'th) system \<times> bakery" where
  "allocate_bakery_id sys s =
     (let idx = bakery_id_counter sys;
          sys' = sys\<lparr>bakery_id_counter := bakery_id_counter sys + 1\<rparr>
      in (idx, sys', ensure_bakery_size idx s))"

text \<open>
  The states of the arrays that the operations of the module can produce from the initial
  one, in any order and by any thread, \<open>bakery_lock\<close> statement by statement.
\<close>

inductive reachable :: "bakery \<Rightarrow> bool" where
  r_init: "reachable init_bakery"
| r_ensure: "reachable s \<Longrightarrow> reachable (ensure_bakery_size idx s)"
| r_lock: "reachable s \<Longrightarrow> lock_step t s = Inr (t', s') \<Longrightarrow> reachable s'"
| r_unlock: "reachable s \<Longrightarrow> bakery_unlock i s = Inr s' \<Longrightarrow> reachable s'"
| r_reset: "reachable s \<Longrightarrow> reachable (reset_arrays s)"

section \<open>Growth of the arrays\<close>

lemma ensure_bakery_size_done:
  "idx < int (length (choosing s)) \<Longrightarrow> ensure_bakery_size idx s = s"
  by (subst ensure_bakery_size.simps) simp

lemma ensure_bakery_size_closed:
  "ensure_bakery_size idx s =
     s\<lparr>choosing := choosing s @ replicate (nat (idx + 1 - int (length (choosing s)))) False,
       number := number s @ replicate (nat (idx + 1 - int (length (choosing s)))) 0\<rparr>"
proof (induction idx s rule: ensure_bakery_size.induct)
  case (1 idx s)
  show ?case
  proof (cases "idx \<ge> int (length (choosing s))")
    case True
    define k where "k = nat (idx - int (length (choosing s)))"
    have k1: "nat (idx + 1 - int (length (choosing s))) = Suc k"
      using True by (simp add: k_def)
    have k2: "nat (idx + 1 - int (length (choosing s @ [False]))) = k"
      using True by (simp add: k_def)
    have "ensure_bakery_size idx s =
            ensure_bakery_size idx
              (s\<lparr>choosing := choosing s @ [False], number := number s @ [0]\<rparr>)"
      using True by (subst ensure_bakery_size.simps) simp
    also have "\<dots> = s\<lparr>choosing := (choosing s @ [False]) @ replicate k False,
                       number := (number s @ [0]) @ replicate k 0\<rparr>"
      using "1.IH" [OF True] k2 by simp
    finally show ?thesis
      unfolding k1 by (simp add: replicate_app_Cons_same)
  next
    case False
    then show ?thesis by (simp add: ensure_bakery_size_done)
  qed
qed

lemma ensure_bakery_size_length:
  "idx < int (length (choosing (ensure_bakery_size idx s)))"
  by (subst ensure_bakery_size_closed) (simp; linarith)

lemma ensure_bakery_size_choosing:
  "choosing (ensure_bakery_size idx s) =
     choosing s @ replicate (nat (idx + 1 - int (length (choosing s)))) False"
  by (subst ensure_bakery_size_closed) simp

lemma ensure_bakery_size_number:
  "number (ensure_bakery_size idx s) =
     number s @ replicate (nat (idx + 1 - int (length (choosing s)))) 0"
  by (subst ensure_bakery_size_closed) simp

text \<open>
  Claim C5. When \<open>ensure_bakery_size idx\<close> returns on arrays of equal length, the number
  of slots exceeds \<open>idx\<close> (in both arrays), every slot that existed before the call is
  unchanged, and every appended slot has \<open>choosing = False\<close> and \<open>number = 0\<close>.
\<close>

theorem ensure_bakery_size_grows:
  assumes "length (choosing s) = length (number s)"
  shows "idx < int (length (choosing (ensure_bakery_size idx s))) \<and>
         length (number (ensure_bakery_size idx s)) =
           length (choosing (ensure_bakery_size idx s)) \<and>
         (\<forall>k < length (choosing s).
            choosing (ensure_bakery_size idx s) ! k = choosing s ! k \<and>
            number (ensure_bakery_size idx s) ! k = number s ! k) \<and>
         (\<forall>k. length (choosing s) \<le> k \<and> k < length (choosing (ensure_bakery_size idx s)) \<longrightarrow>
            choosing (ensure_bakery_size idx s) ! k = False \<and>
            number (ensure_bakery_size idx s) ! k = 0)"
proof -
  let ?s' = "ensure_bakery_size idx s"
  have size: "idx < int (length (choosing ?s'))"
    by (rule ensure_bakery_size_length)
  have same: "length (number ?s') = length (choosing ?s')"
    using assms by (simp add: ensure_bakery_size_choosing ensure_bakery_size_number)
  have old: "\<forall>k < length (choosing s).
            choosing ?s' ! k = choosing s ! k \<and> number ?s' ! k = number s ! k"
    using assms by (simp add: ensure_bakery_size_choosing ensure_bakery_size_number nth_append)
  have new: "\<forall>k. length (choosing s) \<le> k \<and> k < length (choosing ?s') \<longrightarrow>
            choosing ?s' ! k = False \<and> number ?s' ! k = 0"
    using assms
    by (auto simp add: ensure_bakery_size_choosing ensure_bakery_size_number nth_append)
  from size same old new show ?thesis by blast
qed

theorem ensure_bakery_size_grows_witness:
  "length (choosing \<lparr>choosing = [True], number = [7]\<rparr>) = length (number \<lparr>choosing = [True], number = [7]\<rparr>) \<and>
   3 < int (length (choosing (ensure_bakery_size 3 \<lparr>choosing = [True], number = [7]\<rparr>))) \<and>
   choosing (ensure_bakery_size 3 \<lparr>choosing = [True], number = [7]\<rparr>) ! 0 = True \<and>
   number (ensure_bakery_size 3 \<lparr>choosing = [True], number = [7]\<rparr>) ! 0 = 7 \<and>
   choosing (ensure_bakery_size 3 \<lparr>choosing = [True], number = [7]\<rparr>) ! 3 = False \<and>
   number (ensure_bakery_size 3 \<lparr>choosing = [True], number = [7]\<rparr>) ! 3 = 0"
proof -
  have h: "length (choosing \<lparr>choosing = [True], number = [7]\<rparr>) = length (number \<lparr>choosing = [True], number = [7]\<rparr>)"
    by simp
  show ?thesis
    using h ensure_bakery_size_grows [OF h, of 3] by simp
qed

text \<open>
  Claim C6. \<open>ensure_bakery_size\<close> is idempotent: on every state of the arrays and for
  every \<open>k\<close>, a second call with the same \<open>k\<close> changes nothing, so in particular the slots
  below \<open>k\<close> are as the first call left them.
\<close>

theorem ensure_bakery_size_idem:
  "ensure_bakery_size k (ensure_bakery_size k s) = ensure_bakery_size k s"
  by (rule ensure_bakery_size_done) (rule ensure_bakery_size_length)

section \<open>Release and reset\<close>

text \<open>
  Claim C7. For an id \<open>i\<close> that indexes a slot, \<open>bakery_unlock i\<close> raises nothing, sets
  \<open>number[i]\<close> to \<open>0\<close> and changes nothing else: the other tickets, all the \<open>choosing\<close>
  flags and the size stay as they were, whatever the ticket of \<open>i\<close> was before.
\<close>

theorem bakery_unlock_frame:
  assumes "0 \<le> i" and "i < int (length (number s))"
  shows "\<exists>s'. bakery_unlock i s = Inr s' \<and>
           number s' ! nat i = 0 \<and>
           length (number s') = length (number s) \<and>
           (\<forall>k < length (number s). k \<noteq> nat i \<longrightarrow> number s' ! k = number s ! k) \<and>
           choosing s' = choosing s"
  using assms by (simp add: bakery_unlock_def py_set_def py_index_def)

theorem bakery_unlock_frame_witness:
  "(0::int) \<le> 1 \<and> 1 < int (length (number \<lparr>choosing = [True, False], number = [7, 8]\<rparr>)) \<and>
   (\<exists>s'. bakery_unlock 1 \<lparr>choosing = [True, False], number = [7, 8]\<rparr> = Inr s' \<and>
           number s' ! nat 1 = 0 \<and>
           length (number s') = length (number \<lparr>choosing = [True, False], number = [7, 8]\<rparr>) \<and>
           (\<forall>k < length (number \<lparr>choosing = [True, False], number = [7, 8]\<rparr>). k \<noteq> nat 1 \<longrightarrow> number s' ! k = number \<lparr>choosing = [True, False], number = [7, 8]\<rparr> ! k) \<and>
           choosing s' = choosing \<lparr>choosing = [True, False], number = [7, 8]\<rparr>)"
proof -
  have h1: "(0::int) \<le> 1" by simp
  have h2: "1 < int (length (number \<lparr>choosing = [True, False], number = [7, 8]\<rparr>))" by simp
  show ?thesis
    using h1 h2 bakery_unlock_frame [OF h1 h2] by blast
qed

text \<open>
  Claim C8. After \<open>System.reset\<close> both arrays are empty, so no ticket and no
  \<open>choosing\<close> flag remains, and the id counter is back at \<open>0\<close>, the value
  \<open>System.__init__\<close> gives it: the next id allocated is \<open>0\<close>.
\<close>

theorem reset_clears:
  "snd (reset sys s) = \<lparr>choosing = [], number = []\<rparr> \<and>
   bakery_id_counter (fst (reset sys s)) = 0 \<and>
   bakery_id_counter (fst (reset sys s)) = bakery_id_counter (init_system :: ('p, 'th) system) \<and>
   fst (allocate_bakery_id (fst (reset sys s)) (snd (reset sys s))) = 0"
  by (simp add: reset_def reset_arrays_def init_system_def allocate_bakery_id_def)

section \<open>Allocation of ids\<close>

text \<open>
  Claim C4 says that allocating an id leaves the arrays as they were. The source calls
  \<open>ensure_bakery_size(idx)\<close> inside \<open>allocate_bakery_id\<close>: the first allocation on the
  initial state already creates slot \<open>0\<close>.
\<close>

theorem allocate_grows_counterexample:
  "snd (snd (allocate_bakery_id (init_system :: (unit, unit) system) init_bakery)) =
     \<lparr>choosing = [False], number = [0]\<rparr> \<and>
   snd (snd (allocate_bakery_id (init_system :: (unit, unit) system) init_bakery)) \<noteq> init_bakery"
  by code_simp

text \<open>
  Claim C4, amended. \<open>allocate_bakery_id\<close> returns the current counter, increments it,
  and grows the arrays itself, by \<open>ensure_bakery_size\<close> on the id it returns: afterwards
  the size exceeds that id, the slots that existed before are unchanged, and the arrays
  are unchanged exactly when their size already exceeded the id.
\<close>

theorem allocate_bakery_id_ensures:
  "fst (allocate_bakery_id sys s) = bakery_id_counter sys \<and>
   bakery_id_counter (fst (snd (allocate_bakery_id sys s))) = bakery_id_counter sys + 1 \<and>
   snd (snd (allocate_bakery_id sys s)) = ensure_bakery_size (fst (allocate_bakery_id sys s)) s \<and>
   fst (allocate_bakery_id sys s) < int (length (choosing (snd (snd (allocate_bakery_id sys s))))) \<and>
   take (length (choosing s)) (choosing (snd (snd (allocate_bakery_id sys s)))) = choosing s \<and>
   take (length (number s)) (number (snd (snd (allocate_bakery_id sys s)))) = number s \<and>
   (snd (snd (allocate_bakery_id sys s)) = s) =
     (bakery_id_counter sys < int (length (choosing s)))"
proof -
  let ?idx = "bakery_id_counter sys"
  have a: "allocate_bakery_id sys s =
             (?idx, sys\<lparr>bakery_id_counter := ?idx + 1\<rparr>, ensure_bakery_size ?idx s)"
    by (simp add: allocate_bakery_id_def Let_def)
  have same: "(ensure_bakery_size ?idx s = s) = (?idx < int (length (choosing s)))"
  proof
    assume "ensure_bakery_size ?idx s = s"
    then show "?idx < int (length (choosing s))"
      using ensure_bakery_size_length [of ?idx s] by simp
  next
    assume "?idx < int (length (choosing s))"
    then show "ensure_bakery_size ?idx s = s" by (rule ensure_bakery_size_done)
  qed
  show ?thesis
    unfolding a using same
    by (simp add: ensure_bakery_size_length ensure_bakery_size_choosing ensure_bakery_size_number)
qed

section \<open>Acquiring the lock\<close>

lemma read_max_Max: "read_max ns = (if ns = [] then 0 else Max (set ns))"
proof (cases ns)
  case Nil
  then show ?thesis by (simp add: read_max_def)
next
  case (Cons x xs)
  have "(\<lambda>a b. max b a) = (max :: int \<Rightarrow> int \<Rightarrow> int)"
    by (intro ext) (rule max.commute)
  then have "foldl max x xs = fold max xs x"
    by (simp add: foldl_conv_fold)
  then show ?thesis
    using Cons by (simp add: read_max_def Max.set_eq_fold del: set_simps)
qed

lemma py_set_in_range:
  "0 \<le> i \<Longrightarrow> i < int (length xs) \<Longrightarrow> py_set xs i v = Inr (xs[nat i := v])"
  by (simp add: py_set_def py_index_def)

lemma run_alone_returned: "pc t = Returned \<Longrightarrow> run_alone k (t, s) = Inr (t, s)"
  by (induction k) (simp_all add: lock_step_def)

lemma run_alone_add:
  "run_alone (a + b) cfg =
     (case run_alone a cfg of Inl e \<Rightarrow> Inl e | Inr cfg' \<Rightarrow> run_alone b cfg')"
proof (induction a arbitrary: cfg)
  case 0
  then show ?case by simp
next
  case (Suc a)
  obtain t s where cfg: "cfg = (t, s)" by (cases cfg)
  show ?case
    unfolding cfg by (cases "lock_step t s") (simp_all add: Suc.IH)
qed

lemma run_alone_snoc:
  assumes "run_alone k cfg = Inr (t, s)"
  shows "run_alone (Suc k) cfg = lock_step t s"
proof -
  have "run_alone (k + 1) cfg = run_alone 1 (t, s)"
    by (simp only: run_alone_add assms sum.case)
  also have "\<dots> = lock_step t s"
    by (cases "lock_step t s") simp_all
  finally show ?thesis by simp
qed

text \<open>
  Claim C2. Line 64 computes the maximum of all tickets, \<open>0\<close> for an empty array. In
  \<open>bakery_lock(i)\<close>, with \<open>i\<close> an id (\<open>0 \<le> i\<close>) and arrays of equal length, the
  statements run in this order: after the second one \<open>choosing[i]\<close> is true and no
  ticket has been written; the third reads the maximum \<open>m\<close> of the tickets (the array
  is not empty after line 61, so the default is not used); the fourth writes
  \<open>number[i] = m + 1\<close> while \<open>choosing[i]\<close> is still true; only the fifth sets
  \<open>choosing[i]\<close> back to false.
\<close>

theorem ticket_between_choosing:
  assumes "0 \<le> i" and "length (choosing s) = length (number s)"
  shows "read_max ns = (if ns = [] then 0 else Max (set ns)) \<and>
     (let s1 = ensure_bakery_size i s;
          m = Max (set (number s1));
          s2 = s1\<lparr>choosing := (choosing s1)[nat i := True]\<rparr>;
          s4 = s2\<lparr>number := (number s1)[nat i := m + 1]\<rparr>;
          s5 = s4\<lparr>choosing := (choosing s1)[nat i := False]\<rparr>
      in run_alone 1 (start i, s) = Inr ((start i)\<lparr>pc := L62\<rparr>, s1) \<and>
         run_alone 2 (start i, s) = Inr ((start i)\<lparr>pc := L64\<rparr>, s2) \<and>
         run_alone 3 (start i, s) = Inr ((start i)\<lparr>pc := L65, max_num := m\<rparr>, s2) \<and>
         run_alone 4 (start i, s) = Inr ((start i)\<lparr>pc := L66, max_num := m\<rparr>, s4) \<and>
         run_alone 5 (start i, s) = Inr ((start i)\<lparr>pc := L68, max_num := m\<rparr>, s5) \<and>
         choosing s2 ! nat i \<and> number s2 = number s1 \<and>
         choosing s4 ! nat i \<and> number s4 ! nat i = m + 1 \<and>
         \<not> choosing s5 ! nat i \<and> number s5 ! nat i = m + 1)"
proof -
  let ?s1 = "ensure_bakery_size i s"
  let ?m = "Max (set (number ?s1))"
  let ?s2 = "?s1\<lparr>choosing := (choosing ?s1)[nat i := True]\<rparr>"
  let ?s4 = "?s2\<lparr>number := (number ?s1)[nat i := ?m + 1]\<rparr>"
  let ?s5 = "?s4\<lparr>choosing := (choosing ?s1)[nat i := False]\<rparr>"
  have lc: "i < int (length (choosing ?s1))"
    by (rule ensure_bakery_size_length)
  have ln: "i < int (length (number ?s1))"
    using lc assms(2)
    by (simp add: ensure_bakery_size_choosing ensure_bakery_size_number)
  have ne: "number ?s1 \<noteq> []"
    using ln assms(1) by auto
  have st1: "lock_step (start i) s = Inr ((start i)\<lparr>pc := L62\<rparr>, ?s1)"
    by (simp add: lock_step_def start_def)
  have st2: "lock_step ((start i)\<lparr>pc := L62\<rparr>) ?s1 = Inr ((start i)\<lparr>pc := L64\<rparr>, ?s2)"
    using lc assms(1) by (simp add: lock_step_def start_def py_set_in_range)
  have st3: "lock_step ((start i)\<lparr>pc := L64\<rparr>) ?s2 =
               Inr ((start i)\<lparr>pc := L65, max_num := ?m\<rparr>, ?s2)"
    using ne by (simp add: lock_step_def start_def read_max_Max)
  have st4: "lock_step ((start i)\<lparr>pc := L65, max_num := ?m\<rparr>) ?s2 =
               Inr ((start i)\<lparr>pc := L66, max_num := ?m\<rparr>, ?s4)"
    using ln assms(1) by (simp add: lock_step_def start_def py_set_in_range)
  have st5: "lock_step ((start i)\<lparr>pc := L66, max_num := ?m\<rparr>) ?s4 =
               Inr ((start i)\<lparr>pc := L68, max_num := ?m\<rparr>, ?s5)"
    using lc assms(1) by (simp add: lock_step_def start_def py_set_in_range)
  have r1: "run_alone 1 (start i, s) = Inr ((start i)\<lparr>pc := L62\<rparr>, ?s1)"
    using st1 by simp
  have n: "(2::nat) = Suc 1" "(3::nat) = Suc 2" "(4::nat) = Suc 3" "(5::nat) = Suc 4"
    by simp_all
  have r2: "run_alone 2 (start i, s) = Inr ((start i)\<lparr>pc := L64\<rparr>, ?s2)"
    by (simp only: n(1) run_alone_snoc [OF r1] st2)
  have r3: "run_alone 3 (start i, s) = Inr ((start i)\<lparr>pc := L65, max_num := ?m\<rparr>, ?s2)"
    by (simp only: n(2) run_alone_snoc [OF r2] st3)
  have r4: "run_alone 4 (start i, s) = Inr ((start i)\<lparr>pc := L66, max_num := ?m\<rparr>, ?s4)"
    by (simp only: n(3) run_alone_snoc [OF r3] st4)
  have r5: "run_alone 5 (start i, s) = Inr ((start i)\<lparr>pc := L68, max_num := ?m\<rparr>, ?s5)"
    by (simp only: n(4) run_alone_snoc [OF r4] st5)
  have vals: "choosing ?s2 ! nat i \<and> number ?s2 = number ?s1 \<and>
         choosing ?s4 ! nat i \<and> number ?s4 ! nat i = ?m + 1 \<and>
         \<not> choosing ?s5 ! nat i \<and> number ?s5 ! nat i = ?m + 1"
    using lc ln assms(1) by simp
  have rm: "read_max ns = (if ns = [] then 0 else Max (set ns))"
    by (rule read_max_Max)
  show ?thesis
    unfolding Let_def using rm r1 r2 r3 r4 r5 vals by blast
qed

theorem ticket_between_choosing_witness:
  "(0::int) \<le> 1 \<and>
   length (choosing \<lparr>choosing = [False], number = [4]\<rparr>) =
     length (number \<lparr>choosing = [False], number = [4]\<rparr>) \<and>
   run_alone 2 (start 1, \<lparr>choosing = [False], number = [4]\<rparr>) =
     Inr ((start 1)\<lparr>pc := L64\<rparr>, \<lparr>choosing = [False, True], number = [4, 0]\<rparr>) \<and>
   run_alone 4 (start 1, \<lparr>choosing = [False], number = [4]\<rparr>) =
     Inr ((start 1)\<lparr>pc := L66, max_num := 4\<rparr>, \<lparr>choosing = [False, True], number = [4, 5]\<rparr>) \<and>
   run_alone 5 (start 1, \<lparr>choosing = [False], number = [4]\<rparr>) =
     Inr ((start 1)\<lparr>pc := L68, max_num := 4\<rparr>, \<lparr>choosing = [False, False], number = [4, 5]\<rparr>)"
proof -
  have h1: "(0::int) \<le> 1" by simp
  have h2: "length (choosing \<lparr>choosing = [False], number = [4]\<rparr>) =
     length (number \<lparr>choosing = [False], number = [4]\<rparr>)" by simp
  have e: "ensure_bakery_size 1 \<lparr>choosing = [False], number = [4]\<rparr> =
             \<lparr>choosing = [False, False], number = [4, 0]\<rparr>"
    by code_simp
  show ?thesis
    using h1 h2 ticket_between_choosing [OF h1 h2, of "[]"]
    by (simp add: Let_def e)
qed

text \<open>
  Claim C9. On the initial, empty arrays \<open>bakery_lock(5)\<close> returns: twelve statements
  reach the return, and more fuel changes nothing. Slots \<open>0..5\<close> exist afterwards, id
  \<open>5\<close> holds ticket \<open>1\<close>, and the thread never slept: no wait condition was ever true.
\<close>

lemma acquire5_run:
  "run_alone 12 (start 5, init_bakery) =
     Inr (\<lparr>pc = Returned, arg_i = 5, max_num = 0, range_n = 6, var_j = 5, sleeps = 0\<rparr>,
          \<lparr>choosing = [False, False, False, False, False, False],
           number = [0, 0, 0, 0, 0, 1]\<rparr>)"
  by code_simp

theorem acquire5:
  "run_alone (12 + k) (start 5, init_bakery) =
     Inr (\<lparr>pc = Returned, arg_i = 5, max_num = 0, range_n = 6, var_j = 5, sleeps = 0\<rparr>,
          \<lparr>choosing = [False, False, False, False, False, False],
           number = [0, 0, 0, 0, 0, 1]\<rparr>)"
  by (simp only: run_alone_add acquire5_run sum.case) (simp add: run_alone_returned)

text \<open>
  Claim C1 asks for two separate waits per \<open>j\<close>, the second unconditional, so that a
  thread never moves past a \<open>j\<close> whose non-zero ticket comes first. In the source the
  second \<open>while\<close> is nested in the first, so it is skipped whenever \<open>choosing[j]\<close> is
  false. Here id \<open>0\<close> holds ticket \<open>1\<close> and \<open>bakery_lock(1)\<close> is called: after seven
  statements the thread has ticket \<open>2\<close> and is past \<open>j = 0\<close> (it is at line 70 with
  \<open>j = 1\<close>) without having slept, although the condition of line 74 for \<open>j = 0\<close> is
  true; one statement later it has returned.
\<close>

theorem second_wait_skipped:
  "run_alone 7 (start 1, \<lparr>choosing = [False, False], number = [1, 0]\<rparr>) =
     Inr (\<lparr>pc = L70, arg_i = 1, max_num = 1, range_n = 2, var_j = 1, sleeps = 0\<rparr>,
          \<lparr>choosing = [False, False], number = [1, 2]\<rparr>) \<and>
   turn_cond \<lparr>choosing = [False, False], number = [1, 2]\<rparr> 0 1 = Inr True \<and>
   run_alone 8 (start 1, \<lparr>choosing = [False, False], number = [1, 0]\<rparr>) =
     Inr (\<lparr>pc = Returned, arg_i = 1, max_num = 1, range_n = 2, var_j = 1, sleeps = 0\<rparr>,
          \<lparr>choosing = [False, False], number = [1, 2]\<rparr>)"
  by code_simp

section \<open>Mutual exclusion\<close>

text \<open>
  Claim C3 asks that two clients never hold the lock at once. Two clients with ids \<open>0\<close>
  and \<open>1\<close> start on the initial arrays; client \<open>0\<close> runs \<open>bakery_lock(0)\<close> to its
  return, then client \<open>1\<close> runs \<open>bakery_lock(1)\<close> to its return. Client \<open>0\<close> has not
  called \<open>bakery_unlock\<close>, and both are in their critical sections.
\<close>

theorem two_clients_holding:
  "run_sched [0, 0, 0, 0, 0, 0, 0, 1, 1, 1, 1, 1, 1, 1, 1]
     ([Locking (start 0), Locking (start 1)], init_bakery) =
   Inr ([Holding 0, Holding 1], \<lparr>choosing = [False, False], number = [1, 2]\<rparr>)"
  by code_simp

section \<open>The two arrays keep the same length\<close>

text \<open>
  Claim C10. In every state that the operations produce from the initial one, that is by
  \<open>ensure_bakery_size\<close> (also when \<open>allocate_bakery_id\<close> calls it), by any statement
  of \<open>bakery_lock\<close>, by \<open>bakery_unlock\<close> and by the reset, \<open>choosing\<close> and
  \<open>number\<close> have the same length.
\<close>

theorem arrays_same_length:
  "reachable s \<Longrightarrow> length (choosing s) = length (number s)"
proof (induction rule: reachable.induct)
  case r_init
  show ?case by (simp add: init_bakery_def)
next
  case (r_ensure s idx)
  then show ?case
    by (simp add: ensure_bakery_size_choosing ensure_bakery_size_number)
next
  case (r_lock s t t' s')
  from r_lock.hyps(2) r_lock.IH show ?case
    by (auto simp add: lock_step_def py_set_def py_get_def ensure_bakery_size_choosing ensure_bakery_size_number
        split: label.splits sum.splits option.splits if_splits)
next
  case (r_unlock s i s')
  from r_unlock.hyps(2) r_unlock.IH show ?case
    by (auto simp add: bakery_unlock_def py_set_def split: sum.splits option.splits)
next
  case (r_reset s)
  show ?case by (simp add: reset_arrays_def)
qed

theorem arrays_same_length_witness:
  "reachable (ensure_bakery_size 2 init_bakery) \<and>
   length (choosing (ensure_bakery_size 2 init_bakery)) =
     length (number (ensure_bakery_size 2 init_bakery))"
proof -
  have h: "reachable (ensure_bakery_size 2 init_bakery)"
    by (rule r_ensure [OF r_init])
  show ?thesis
    using h arrays_same_length [OF h] by simp
qed

end
